theory Spec2Isabelle
  imports Main "HOL-Library.Sublist"
begin

section \<open>The Python primitives the assembler relies on\<close>

text \<open>
  The assembler of \<^verbatim>\<open>unified-assembler.py\<close> is built from a handful of Python string
  operations. A \<^typ>\<open>char\<close> stands for a code point below 256 of a Python \<^verbatim>\<open>str\<close>, and
  \<^typ>\<open>string\<close> for the \<^verbatim>\<open>str\<close> itself. Python integers are unbounded: they are
  \<^typ>\<open>int\<close>. Every exception the program can raise is a value of \<open>error\<close>, and a
  function that may raise returns \<open>error + 'a\<close> with \<open>Inl\<close> for the exception.
\<close>

datatype error = ValueError | IndexError | KeyError | TypeError | AttributeError

text \<open>
  \<^verbatim>\<open>str.isspace\<close> on one character: among the code points below 256 Python counts as
  whitespace U+0009 to U+000D, U+001C to U+001F, the space, U+0085 and U+00A0.
\<close>

definition isspace :: "char \<Rightarrow> bool" where
  "isspace c \<longleftrightarrow> c \<in> set [CHR 0x09, CHR 0x0A, CHR 0x0B, CHR 0x0C, CHR 0x0D,
                           CHR 0x1C, CHR 0x1D, CHR 0x1E, CHR 0x1F, CHR 0x20,
                           CHR 0x85, CHR 0xA0]"

text \<open>\<^verbatim>\<open>s.strip()\<close>: drop the whitespace at both ends.\<close>

definition py_strip :: "string \<Rightarrow> string" where
  "py_strip s = rev (dropWhile isspace (rev (dropWhile isspace s)))"

text \<open>\<^verbatim>\<open>s.startswith(p)\<close>.\<close>

definition py_startswith :: "string \<Rightarrow> string \<Rightarrow> bool" where
  "py_startswith s p \<longleftrightarrow> prefix p s"

text \<open>
  \<^verbatim>\<open>s.split(sep)\<close> for a non-empty separator: the pieces between the leftmost
  non-overlapping occurrences of \<open>sep\<close>, so the result is never the empty list. The
  program only ever passes the literals \<^verbatim>\<open>'//'\<close>, \<^verbatim>\<open>'='\<close> and \<^verbatim>\<open>';'\<close>; for the empty
  separator (where Python raises) the model keeps the string in one piece.
\<close>

fun py_split :: "string \<Rightarrow> string \<Rightarrow> string list" where
  "py_split sep [] = [[]]"
| "py_split sep (c # s) =
     (if sep \<noteq> [] \<and> prefix sep (c # s)
      then [] # py_split sep (drop (length sep) (c # s))
      else (case py_split sep s of
              [] \<Rightarrow> [[c]]
            | piece # rest \<Rightarrow> (c # piece) # rest))"

text \<open>
  \<^verbatim>\<open>str.isdigit\<close>: the string is non-empty and every character is a digit. Below 256
  the digits are \<^verbatim>\<open>0\<close> to \<^verbatim>\<open>9\<close> and the superscripts U+00B2, U+00B3 and U+00B9; only
  the former are decimal characters.
\<close>

definition isdecimal_char :: "char \<Rightarrow> bool" where
  "isdecimal_char c \<longleftrightarrow> c \<in> set ''0123456789''"

definition isdigit_char :: "char \<Rightarrow> bool" where
  "isdigit_char c \<longleftrightarrow> isdecimal_char c \<or> c \<in> set [CHR 0xB2, CHR 0xB3, CHR 0xB9]"

definition py_isdigit :: "string \<Rightarrow> bool" where
  "py_isdigit s \<longleftrightarrow> s \<noteq> [] \<and> list_all isdigit_char s"

text \<open>
  \<^verbatim>\<open>int(s)\<close> for a string on which \<^verbatim>\<open>isdigit\<close> holds: the base-10 value when every
  character is a decimal character, \<^verbatim>\<open>ValueError\<close> otherwise (a superscript digit is
  no literal). The limit that recent interpreters put on the number of digits of a
  literal is a setting of the interpreter and is left out.
\<close>

definition digit_value :: "char \<Rightarrow> int" where
  "digit_value c = int (of_char c) - 48"

definition int_of_digits :: "string \<Rightarrow> error + int" where
  "int_of_digits s =
     (if list_all isdecimal_char s
      then Inr (foldl (\<lambda>acc c. 10 * acc + digit_value c) 0 s)
      else Inl ValueError)"

text \<open>
  \<^verbatim>\<open>format(value, '016b')\<close>: the binary digits of the magnitude, most significant
  first, padded with zeros on the left to a width of at least 16, the sign of a negative
  value counting towards the width. A value of 17 bits or more is not truncated.
\<close>

fun bin_digits :: "nat \<Rightarrow> string" where
  "bin_digits n =
     (if n < 2 then [if n = 0 then CHR ''0'' else CHR ''1'']
      else bin_digits (n div 2) @ [if n mod 2 = 0 then CHR ''0'' else CHR ''1''])"

declare bin_digits.simps [simp del]

definition zero_pad :: "nat \<Rightarrow> string \<Rightarrow> string" where
  "zero_pad width s = replicate (width - length s) CHR ''0'' @ s"

definition format_016b :: "int \<Rightarrow> string" where
  "format_016b v =
     (if v < 0 then CHR ''-'' # zero_pad 15 (bin_digits (nat (- v)))
      else zero_pad 16 (bin_digits (nat v)))"

section \<open>Parser\<close>

text \<open>
  \<^verbatim>\<open>Parser.preprocess_lines\<close> iterates over the opened file, that is over its raw lines
  (each still carrying its line terminator), and appends the surviving lines to
  \<^verbatim>\<open>preprocessed\<close>. The input file is given throughout as the list of the raw lines
  that iterating over it yields.
\<close>

fun preprocess_loop :: "string list \<Rightarrow> string list \<Rightarrow> string list" where
  "preprocess_loop preprocessed [] = preprocessed"
| "preprocess_loop preprocessed (line # file) =
     (let line1 = py_strip line;
          line2 = py_strip (hd (py_split ''//'' line1))
      in if line2 \<noteq> [] \<and> \<not> py_startswith line2 ''//''
         then preprocess_loop (preprocessed @ [line2]) file
         else preprocess_loop preprocessed file)"

definition preprocess_lines :: "string list \<Rightarrow> string list" where
  "preprocess_lines file = preprocess_loop [] file"

text \<open>
  A \<^verbatim>\<open>Parser\<close> holds the normalized lines, the index of the current line (\<open>-1\<close> before
  the first \<^verbatim>\<open>advance\<close>) and the current instruction (\<^verbatim>\<open>None\<close> before the first
  \<^verbatim>\<open>advance\<close>). The constructor reads the lines of the input file.
\<close>

record Parser =
  lines :: "string list"
  current_line :: int
  current_instruction :: "string option"

definition Parser_init :: "string list \<Rightarrow> Parser" where
  "Parser_init input_file =
     \<lparr>lines = preprocess_lines input_file, current_line = - 1, current_instruction = None\<rparr>"

definition has_more_lines :: "Parser \<Rightarrow> bool" where
  "has_more_lines self \<longleftrightarrow> current_line self < int (length (lines self)) - 1"

text \<open>\<^verbatim>\<open>xs[i]\<close>: a negative index counts from the end, an index out of range raises.\<close>

definition py_index :: "'a list \<Rightarrow> int \<Rightarrow> error + 'a" where
  "py_index xs i =
     (let j = (if i < 0 then i + int (length xs) else i)
      in if 0 \<le> j \<and> j < int (length xs) then Inr (xs ! nat j) else Inl IndexError)"

definition advance :: "Parser \<Rightarrow> error + Parser" where
  "advance self =
     (let i = current_line self + 1
      in case py_index (lines self) i of
           Inl e \<Rightarrow> Inl e
         | Inr instr \<Rightarrow> Inr (self\<lparr>current_line := i, current_instruction := Some instr\<rparr>))"

text \<open>
  The remaining methods of \<^verbatim>\<open>Parser\<close> read nothing but \<^verbatim>\<open>self.current_instruction\<close>;
  each is modelled as a function of that string, and the loops that call them raise
  \<^verbatim>\<open>AttributeError\<close> when it is still \<^verbatim>\<open>None\<close>. A split never returns the empty list
  (\<open>py_split_not_Nil\<close>), so the pieces \<^verbatim>\<open>[0]\<close> and \<^verbatim>\<open>[-1]\<close> are its \<open>hd\<close> and \<open>last\<close>.
\<close>

datatype instruction_kind = A_INSTRUCTION | L_INSTRUCTION | C_INSTRUCTION

definition instruction_type :: "string \<Rightarrow> instruction_kind" where
  "instruction_type instr =
     (if py_startswith instr ''@'' then A_INSTRUCTION
      else if py_startswith instr ''('' then L_INSTRUCTION
      else C_INSTRUCTION)"

text \<open>The slices \<^verbatim>\<open>[1:]\<close> and \<^verbatim>\<open>[1:-1]\<close> are \<open>drop 1\<close> and \<open>butlast \<circ> drop 1\<close>.\<close>

definition symbol :: "string \<Rightarrow> error + string" where
  "symbol instr =
     (if instruction_type instr = A_INSTRUCTION then Inr (drop 1 instr)
      else if instruction_type instr = L_INSTRUCTION then Inr (butlast (drop 1 instr))
      else Inl ValueError)"

definition Parser_dest :: "string \<Rightarrow> string" where
  "Parser_dest instr =
     (if CHR ''='' \<in> set instr then hd (py_split ''='' instr) else [])"

definition Parser_comp :: "string \<Rightarrow> string" where
  "Parser_comp instr = hd (py_split '';'' (last (py_split ''='' instr)))"

definition Parser_jump :: "string \<Rightarrow> string" where
  "Parser_jump instr =
     (if CHR '';'' \<in> set instr then last (py_split '';'' instr) else [])"

section \<open>Code\<close>

text \<open>
  The three dictionaries of \<^verbatim>\<open>Code.__init__\<close>, entry by entry in the order of the
  source, and the lookups with their defaults (\<^verbatim>\<open>dict.get(mnemonic, default)\<close>).
\<close>

definition dest_table :: "(string \<times> string) list" where
  "dest_table =
     [([], ''000''), (''M'', ''001''), (''D'', ''010''), (''MD'', ''011''),
      (''A'', ''100''), (''AM'', ''101''), (''AD'', ''110''), (''AMD'', ''111'')]"

definition jump_table :: "(string \<times> string) list" where
  "jump_table =
     [([], ''000''), (''JGT'', ''001''), (''JEQ'', ''010''), (''JGE'', ''011''),
      (''JLT'', ''100''), (''JNE'', ''101''), (''JLE'', ''110''), (''JMP'', ''111'')]"

definition comp_table :: "(string \<times> string) list" where
  "comp_table =
     [(''0'', ''0101010''), (''1'', ''0111111''), (''-1'', ''0111010''), (''D'', ''0001100''),
      (''A'', ''0110000''), (''!D'', ''0001101''), (''!A'', ''0110001''), (''-D'', ''0001111''),
      (''-A'', ''0110011''), (''D+1'', ''0011111''), (''A+1'', ''0110111''), (''D-1'', ''0001110''),
      (''A-1'', ''0110010''), (''D+A'', ''0000010''), (''D-A'', ''0010011''), (''A-D'', ''0000111''),
      (''D&A'', ''0000000''), (''D|A'', ''0010101''),
      (''M'', ''1110000''), (''!M'', ''1110001''), (''-M'', ''1110011''), (''M+1'', ''1110111''),
      (''M-1'', ''1110010''), (''D+M'', ''1000010''), (''D-M'', ''1010011''), (''M-D'', ''1000111''),
      (''D&M'', ''1000000''), (''D|M'', ''1010101'')]"

definition Code_dest :: "string \<Rightarrow> string" where
  "Code_dest mnemonic = (case map_of dest_table mnemonic of Some code \<Rightarrow> code | None \<Rightarrow> ''000'')"

definition Code_comp :: "string \<Rightarrow> string" where
  "Code_comp mnemonic = (case map_of comp_table mnemonic of Some code \<Rightarrow> code | None \<Rightarrow> ''0000000'')"

definition Code_jump :: "string \<Rightarrow> string" where
  "Code_jump mnemonic = (case map_of jump_table mnemonic of Some code \<Rightarrow> code | None \<Rightarrow> ''000'')"

section \<open>SymbolTable\<close>

record SymbolTable =
  table :: "string \<rightharpoonup> int"
  next_variable_address :: int

definition predefined :: "(string \<times> int) list" where
  "predefined =
     [(''SP'', 0), (''LCL'', 1), (''ARG'', 2), (''THIS'', 3), (''THAT'', 4),
      (''R0'', 0), (''R1'', 1), (''R2'', 2), (''R3'', 3), (''R4'', 4), (''R5'', 5),
      (''R6'', 6), (''R7'', 7), (''R8'', 8), (''R9'', 9), (''R10'', 10), (''R11'', 11),
      (''R12'', 12), (''R13'', 13), (''R14'', 14), (''R15'', 15),
      (''SCREEN'', 16384), (''KBD'', 24576)]"

definition SymbolTable_init :: SymbolTable where
  "SymbolTable_init = \<lparr>table = map_of predefined, next_variable_address = 16\<rparr>"

definition add_entry :: "SymbolTable \<Rightarrow> string \<Rightarrow> int \<Rightarrow> SymbolTable" where
  "add_entry self symb address = self\<lparr>table := (table self)(symb \<mapsto> address)\<rparr>"

definition contains :: "SymbolTable \<Rightarrow> string \<Rightarrow> bool" where
  "contains self symb \<longleftrightarrow> table self symb \<noteq> None"

text \<open>\<^verbatim>\<open>dict.get(symbol)\<close>: \<open>None\<close> is Python's \<^verbatim>\<open>None\<close>.\<close>

definition get_address :: "SymbolTable \<Rightarrow> string \<Rightarrow> int option" where
  "get_address self symb = table self symb"

text \<open>
  \<^verbatim>\<open>add_variable\<close> returns the address together with the updated table; the final
  \<^verbatim>\<open>self.table[symbol]\<close> raises \<^verbatim>\<open>KeyError\<close> on a missing key.
\<close>

definition add_variable :: "SymbolTable \<Rightarrow> string \<Rightarrow> error + (SymbolTable \<times> int)" where
  "add_variable self symb =
     (let self' =
        (if \<not> contains self symb
         then self\<lparr>table := (table self)(symb \<mapsto> next_variable_address self),
                   next_variable_address := next_variable_address self + 1\<rparr>
         else self)
      in case table self' symb of
           None \<Rightarrow> Inl KeyError
         | Some address \<Rightarrow> Inr (self', address))"

section \<open>The two passes\<close>

text \<open>
  The first loop of \<^verbatim>\<open>assemble\<close>: while the parser has more lines, advance, and either
  record the label at the current ROM address or count the instruction.
\<close>

function first_pass :: "Parser \<Rightarrow> SymbolTable \<Rightarrow> int \<Rightarrow> error + (SymbolTable \<times> int)" where
  "first_pass parser symbol_table rom_address =
     (if has_more_lines parser then
        (case advance parser of
           Inl e \<Rightarrow> Inl e
         | Inr parser' \<Rightarrow>
             (case current_instruction parser' of
                None \<Rightarrow> Inl AttributeError
              | Some instr \<Rightarrow>
                  if instruction_type instr = L_INSTRUCTION then
                    (case symbol instr of
                       Inl e \<Rightarrow> Inl e
                     | Inr symb \<Rightarrow>
                         first_pass parser' (add_entry symbol_table symb rom_address) rom_address)
                  else first_pass parser' symbol_table (rom_address + 1)))
      else Inr (symbol_table, rom_address))"
  by pat_completeness auto
termination
  by (relation "measure (\<lambda>(parser, _, _).
        nat (int (length (lines parser)) - 1 - current_line parser))")
     (auto simp: has_more_lines_def advance_def py_index_def Let_def
           split: if_splits sum.splits)

declare first_pass.simps [simp del]

text \<open>
  The value of an A-instruction (the \<^verbatim>\<open>if\<close>/\<^verbatim>\<open>elif\<close>/\<^verbatim>\<open>else\<close> on \<^verbatim>\<open>symbol\<close> in the second
  loop). \<^verbatim>\<open>get_address\<close> may return \<^verbatim>\<open>None\<close>, which \<^verbatim>\<open>format\<close> rejects with a
  \<^verbatim>\<open>TypeError\<close>.
\<close>

definition a_instruction_value :: "SymbolTable \<Rightarrow> string \<Rightarrow> error + (SymbolTable \<times> int)" where
  "a_instruction_value symbol_table symb =
     (if py_isdigit symb then
        (case int_of_digits symb of
           Inl e \<Rightarrow> Inl e
         | Inr v \<Rightarrow> Inr (symbol_table, v))
      else if contains symbol_table symb then
        (case get_address symbol_table symb of
           None \<Rightarrow> Inl TypeError
         | Some v \<Rightarrow> Inr (symbol_table, v))
      else add_variable symbol_table symb)"

text \<open>
  The body of the second loop for one instruction: the updated symbol table and the
  text written to the output file (nothing for a label).
\<close>

definition second_pass_body :: "string \<Rightarrow> SymbolTable \<Rightarrow> error + (SymbolTable \<times> string)" where
  "second_pass_body instr symbol_table =
     (if instruction_type instr = A_INSTRUCTION then
        (case symbol instr of
           Inl e \<Rightarrow> Inl e
         | Inr symb \<Rightarrow>
             (case a_instruction_value symbol_table symb of
                Inl e \<Rightarrow> Inl e
              | Inr (symbol_table', v) \<Rightarrow>
                  Inr (symbol_table', format_016b v @ ''\<newline>'')))
      else if instruction_type instr = C_INSTRUCTION then
        (let dest = Code_dest (Parser_dest instr);
             comp = Code_comp (Parser_comp instr);
             jump = Code_jump (Parser_jump instr)
         in Inr (symbol_table, ''111'' @ comp @ dest @ jump @ ''\<newline>''))
      else Inr (symbol_table, []))"

text \<open>The second loop; \<open>f\<close> is the content of the output file written so far.\<close>

function second_pass :: "Parser \<Rightarrow> SymbolTable \<Rightarrow> string \<Rightarrow> error + (SymbolTable \<times> string)" where
  "second_pass parser symbol_table f =
     (if has_more_lines parser then
        (case advance parser of
           Inl e \<Rightarrow> Inl e
         | Inr parser' \<Rightarrow>
             (case current_instruction parser' of
                None \<Rightarrow> Inl AttributeError
              | Some instr \<Rightarrow>
                  (case second_pass_body instr symbol_table of
                     Inl e \<Rightarrow> Inl e
                   | Inr (symbol_table', written) \<Rightarrow>
                       second_pass parser' symbol_table' (f @ written))))
      else Inr (symbol_table, f))"
  by pat_completeness auto
termination
  by (relation "measure (\<lambda>(parser, _, _).
        nat (int (length (lines parser)) - 1 - current_line parser))")
     (auto simp: has_more_lines_def advance_def py_index_def Let_def
           split: if_splits sum.splits)

declare second_pass.simps [simp del]

text \<open>
  \<^verbatim>\<open>assemble\<close>: both passes read the same input file; the result is the content of the
  output file, or the exception that ended the run.
\<close>

definition assemble :: "string list \<Rightarrow> error + string" where
  "assemble input_file =
     (case first_pass (Parser_init input_file) SymbolTable_init 0 of
        Inl e \<Rightarrow> Inl e
      | Inr (symbol_table, rom_address) \<Rightarrow>
          (case second_pass (Parser_init input_file) symbol_table [] of
             Inl e \<Rightarrow> Inl e
           | Inr (symbol_table', f) \<Rightarrow> Inr f))"

section \<open>The loops as recursion over the normalized lines\<close>

text \<open>
  The parser visits \<open>lines[0]\<close>, \<open>lines[1]\<close>, ... in order, so each loop of \<^verbatim>\<open>assemble\<close>
  is a traversal of the list of normalized lines. The functions below are those
  traversals; \<open>first_pass_lines_eq\<close> and \<open>second_pass_lines_eq\<close> prove that the loops
  over the parser compute them. \<open>add_variables\<close> resolves a sequence of names one after
  the other with \<^verbatim>\<open>add_variable\<close>.
\<close>

fun first_pass_lines :: "SymbolTable \<Rightarrow> int \<Rightarrow> string list \<Rightarrow> error + (SymbolTable \<times> int)" where
  "first_pass_lines symbol_table rom_address [] = Inr (symbol_table, rom_address)"
| "first_pass_lines symbol_table rom_address (instr # rest) =
     (if instruction_type instr = L_INSTRUCTION then
        (case symbol instr of
           Inl e \<Rightarrow> Inl e
         | Inr symb \<Rightarrow>
             first_pass_lines (add_entry symbol_table symb rom_address) rom_address rest)
      else first_pass_lines symbol_table (rom_address + 1) rest)"

fun second_pass_lines :: "SymbolTable \<Rightarrow> string \<Rightarrow> string list \<Rightarrow> error + (SymbolTable \<times> string)" where
  "second_pass_lines symbol_table f [] = Inr (symbol_table, f)"
| "second_pass_lines symbol_table f (instr # rest) =
     (case second_pass_body instr symbol_table of
        Inl e \<Rightarrow> Inl e
      | Inr (symbol_table', written) \<Rightarrow> second_pass_lines symbol_table' (f @ written) rest)"


section \<open>Facts about the string primitives\<close>

lemma py_split_not_Nil: "py_split sep s \<noteq> []"
  by (induction sep s rule: py_split.induct) (auto split: list.splits)

lemma hd_py_split_prefix: "prefix (hd (py_split sep s)) s"
  by (induction sep s rule: py_split.induct) (auto split: list.splits)

text \<open>The first piece of a split ends before the first occurrence of the separator.\<close>

lemma hd_py_split_no_sep: "sep \<noteq> [] \<Longrightarrow> \<not> sublist sep (hd (py_split sep s))"
proof (induction sep s rule: py_split.induct)
  case (1 sep)
  then show ?case by simp
next
  case (2 sep c s)
  show ?case
  proof (cases "prefix sep (c # s)")
    case True
    with 2 show ?thesis by simp
  next
    case False
    obtain piece rest where pr: "py_split sep s = piece # rest"
      using py_split_not_Nil [of sep s] by (cases "py_split sep s") auto
    have ih: "\<not> sublist sep piece" using 2 False pr by simp
    have pre: "prefix piece s" using hd_py_split_prefix [of sep s] pr by simp
    have "\<not> sublist sep (c # piece)"
    proof
      assume "sublist sep (c # piece)"
      then have "prefix sep (c # piece) \<or> sublist sep piece"
        by (simp add: sublist_Cons_right)
      with ih have "prefix sep (c # piece)" by simp
      moreover have "prefix (c # piece) (c # s)" using pre by simp
      ultimately have "prefix sep (c # s)" by (rule prefix_order.trans)
      with False show False by simp
    qed
    with False pr show ?thesis by simp
  qed
qed

lemma sublist_py_strip: "sublist (py_strip s) s"
proof -
  have "suffix (dropWhile isspace s) s" by (rule suffix_dropWhile)
  moreover have "prefix (py_strip s) (dropWhile isspace s)"
    unfolding py_strip_def
    by (metis suffix_dropWhile suffix_to_prefix rev_rev_ident)
  ultimately show ?thesis
    by (meson prefix_imp_sublist suffix_imp_sublist sublist_order.order_trans)
qed

lemma py_strip_ends:
  assumes "py_strip s \<noteq> []"
  shows "\<not> isspace (hd (py_strip s))" and "\<not> isspace (last (py_strip s))"
proof -
  let ?t = "dropWhile isspace s"
  let ?u = "dropWhile isspace (rev ?t)"
  have u: "?u \<noteq> []" using assms by (simp add: py_strip_def)
  have "last (py_strip s) = hd ?u"
    using u by (simp add: py_strip_def last_rev)
  then show "\<not> isspace (last (py_strip s))"
    using hd_dropWhile [OF u] by simp
  have pre: "prefix (py_strip s) ?t"
    unfolding py_strip_def
    by (metis suffix_dropWhile suffix_to_prefix rev_rev_ident)
  then obtain zs where zs: "?t = py_strip s @ zs" by (auto simp: prefix_def)
  then have t: "?t \<noteq> []" using assms by auto
  have "hd (py_strip s) = hd ?t" using zs assms by (metis hd_append2)
  then show "\<not> isspace (hd (py_strip s))"
    using hd_dropWhile [OF t] by simp
qed

lemma replicate_numeral: "replicate (numeral k) x = x # replicate (pred_numeral k) x"
  by (simp add: numeral_eq_Suc)

section \<open>The normalizer\<close>

lemma preprocess_loop_acc: "preprocess_loop acc raw = acc @ preprocess_loop [] raw"
proof (induction raw arbitrary: acc)
  case Nil
  show ?case by simp
next
  case (Cons line raw)
  show ?case
    using Cons.IH [of "acc @ [py_strip (hd (py_split ''//'' (py_strip line)))]"]
          Cons.IH [of "[py_strip (hd (py_split ''//'' (py_strip line)))]"]
          Cons.IH [of acc]
    by (simp add: Let_def)
qed

lemma normalized_no_marker:
  "\<not> sublist ''//'' (py_strip (hd (py_split ''//'' s)))"
proof -
  have "\<not> sublist ''//'' (hd (py_split ''//'' s))"
    by (rule hd_py_split_no_sep) simp
  then show ?thesis
    using sublist_py_strip [of "hd (py_split ''//'' s)"]
    by (meson sublist_order.order_trans)
qed

lemma preprocess_loop_Nil_eq:
  "preprocess_loop [] raw =
     filter (\<lambda>e. e \<noteq> []) (map (\<lambda>line. py_strip (hd (py_split ''//'' (py_strip line)))) raw)"
proof (induction raw)
  case Nil
  show ?case by simp
next
  case (Cons line raw)
  let ?e = "py_strip (hd (py_split ''//'' (py_strip line)))"
  have ns: "\<not> py_startswith ?e ''//''"
    using normalized_no_marker [of "py_strip line"]
    by (auto simp: py_startswith_def dest: prefix_imp_sublist)
  show ?case
    using Cons.IH ns preprocess_loop_acc [of "[?e]" raw]
    by (simp add: Let_def)
qed

text \<open>A line that is blank or holds only a comment leaves no trace in the normalized lines.\<close>

lemma preprocess_lines_skip:
  assumes "py_strip (hd (py_split ''//'' (py_strip line))) = []"
  shows "preprocess_lines (xs @ line # ys) = preprocess_lines (xs @ ys)"
  using assms by (simp add: preprocess_lines_def preprocess_loop_Nil_eq)

text \<open>
  C9. Whatever the raw lines are, every normalized line is non-empty, contains no
  comment marker \<^verbatim>\<open>//\<close>, begins and ends with a character that is not whitespace, and
  the normalized lines are the cleaned raw lines that are not empty, in the order of the
  raw input.
\<close>

theorem preprocess_lines_normalized:
  "(\<forall>e \<in> set (preprocess_lines raw).
       e \<noteq> [] \<and> \<not> sublist ''//'' e \<and> \<not> isspace (hd e) \<and> \<not> isspace (last e))
   \<and> preprocess_lines raw =
       filter (\<lambda>e. e \<noteq> [])
         (map (\<lambda>line. py_strip (hd (py_split ''//'' (py_strip line)))) raw)"
proof -
  have eq: "preprocess_lines raw =
       filter (\<lambda>e. e \<noteq> [])
         (map (\<lambda>line. py_strip (hd (py_split ''//'' (py_strip line)))) raw)"
    by (simp add: preprocess_lines_def preprocess_loop_Nil_eq)
  have "e \<noteq> [] \<and> \<not> sublist ''//'' e \<and> \<not> isspace (hd e) \<and> \<not> isspace (last e)"
    if "e \<in> set (preprocess_lines raw)" for e
  proof -
    from that eq obtain line where e: "e = py_strip (hd (py_split ''//'' (py_strip line)))"
      and ne: "e \<noteq> []" by auto
    have "\<not> sublist ''//'' e"
      unfolding e by (rule normalized_no_marker)
    with ne py_strip_ends [of "hd (py_split ''//'' (py_strip line))"] e
    show ?thesis by simp
  qed
  with eq show ?thesis by blast
qed

theorem preprocess_lines_normalized_witness:
  "preprocess_lines
     [''  @2  // load\<newline>'', ''\<newline>'', ''// c\<newline>'', ''D=A\<newline>'', ''a/b // x'']
     = [''@2'', ''D=A'', ''a/b'']
   \<and> ''a/b'' \<noteq> [] \<and> \<not> sublist ''//'' ''a/b''
   \<and> \<not> isspace (hd ''a/b'') \<and> \<not> isspace (last ''a/b'')"
proof -
  have ev: "preprocess_lines
     [''  @2  // load\<newline>'', ''\<newline>'', ''// c\<newline>'', ''D=A\<newline>'', ''a/b // x'']
     = [''@2'', ''D=A'', ''a/b'']"
    by (simp add: preprocess_lines_def py_strip_def isspace_def py_startswith_def)
  have "''a/b'' \<in> set [''@2'', ''D=A'', ''a/b'']" by simp
  then show ?thesis
    using preprocess_lines_normalized
      [of "[''  @2  // load\<newline>'', ''\<newline>'', ''// c\<newline>'', ''D=A\<newline>'', ''a/b // x'']"]
    unfolding ev by blast
qed

section \<open>The loops over the parser are traversals of the normalized lines\<close>

lemma advance_at:
  assumes "current_line p = int k - 1" and "k < length (lines p)"
  shows "advance p = Inr (p\<lparr>current_line := int k, current_instruction := Some (lines p ! k)\<rparr>)"
  using assms by (simp add: advance_def py_index_def Let_def)

lemma has_more_lines_at:
  assumes "current_line p = int k - 1"
  shows "has_more_lines p \<longleftrightarrow> k < length (lines p)"
  using assms by (auto simp: has_more_lines_def)

lemma first_pass_drop:
  "current_line p = int k - 1 \<Longrightarrow> k \<le> length (lines p) \<Longrightarrow>
   first_pass p st rom = first_pass_lines st rom (drop k (lines p))"
proof (induction "length (lines p) - k" arbitrary: p k st rom)
  case 0
  then have "\<not> has_more_lines p" by (simp add: has_more_lines_at)
  with 0 show ?case by (simp add: first_pass.simps)
next
  case (Suc n)
  then have lt: "k < length (lines p)" by simp
  let ?p = "p\<lparr>current_line := int k, current_instruction := Some (lines p ! k)\<rparr>"
  have more: "has_more_lines p" using Suc.prems lt by (simp add: has_more_lines_at)
  have adv: "advance p = Inr ?p" using Suc.prems(1) lt by (rule advance_at)
  have dr: "drop k (lines p) = lines p ! k # drop (Suc k) (lines p)"
    using lt by (simp add: Cons_nth_drop_Suc)
  have ih: "first_pass ?p st' rom' = first_pass_lines st' rom' (drop (Suc k) (lines p))"
    for st' rom'
    using Suc.hyps(1) [of ?p "Suc k" st' rom'] Suc.hyps(2) lt by simp
  show ?case
    by (subst first_pass.simps) (simp add: more adv dr ih split: sum.splits)
qed

lemma first_pass_lines_eq:
  "first_pass (Parser_init raw) st rom = first_pass_lines st rom (preprocess_lines raw)"
  using first_pass_drop [of "Parser_init raw" 0 st rom] by (simp add: Parser_init_def)

lemma second_pass_drop:
  "current_line p = int k - 1 \<Longrightarrow> k \<le> length (lines p) \<Longrightarrow>
   second_pass p st f = second_pass_lines st f (drop k (lines p))"
proof (induction "length (lines p) - k" arbitrary: p k st f)
  case 0
  then have "\<not> has_more_lines p" by (simp add: has_more_lines_at)
  with 0 show ?case by (simp add: second_pass.simps)
next
  case (Suc n)
  then have lt: "k < length (lines p)" by simp
  let ?p = "p\<lparr>current_line := int k, current_instruction := Some (lines p ! k)\<rparr>"
  have more: "has_more_lines p" using Suc.prems lt by (simp add: has_more_lines_at)
  have adv: "advance p = Inr ?p" using Suc.prems(1) lt by (rule advance_at)
  have dr: "drop k (lines p) = lines p ! k # drop (Suc k) (lines p)"
    using lt by (simp add: Cons_nth_drop_Suc)
  have ih: "second_pass ?p st' f' = second_pass_lines st' f' (drop (Suc k) (lines p))"
    for st' f'
    using Suc.hyps(1) [of ?p "Suc k" st' f'] Suc.hyps(2) lt by simp
  show ?case
    by (subst second_pass.simps) (simp add: more adv dr ih split: sum.splits prod.splits)
qed

lemma second_pass_lines_eq:
  "second_pass (Parser_init raw) st f = second_pass_lines st f (preprocess_lines raw)"
  using second_pass_drop [of "Parser_init raw" 0 st f] by (simp add: Parser_init_def)

text \<open>The equations that evaluate the assembler on a concrete program.\<close>

lemmas eval_defs = replicate_numeral
  preprocess_lines_def py_strip_def isspace_def py_startswith_def
  instruction_type_def symbol_def Parser_dest_def Parser_comp_def Parser_jump_def
  Code_dest_def Code_comp_def Code_jump_def dest_table_def comp_table_def jump_table_def
  SymbolTable_init_def predefined_def add_entry_def contains_def get_address_def
  add_variable_def a_instruction_value_def second_pass_body_def
  py_isdigit_def isdigit_char_def isdecimal_char_def int_of_digits_def digit_value_def
  format_016b_def zero_pad_def bin_digits.simps Let_def

section \<open>The whole pipeline on an example\<close>

text \<open>
  C1. Assembling the six lines \<^verbatim>\<open>@2\<close>, \<^verbatim>\<open>D=A\<close>, \<^verbatim>\<open>@3\<close>, \<^verbatim>\<open>D=D+A\<close>, \<^verbatim>\<open>@0\<close>, \<^verbatim>\<open>M=D\<close>
  writes exactly six 16-bit words, one per instruction and in this order:
  0000000000000010, 1110110000010000, 0000000000000011, 1110000010010000,
  0000000000000000, 1110001100001000.
\<close>

theorem assemble_six_lines:
  "assemble [''@2\<newline>'', ''D=A\<newline>'', ''@3\<newline>'', ''D=D+A\<newline>'', ''@0\<newline>'', ''M=D\<newline>'']
     = Inr (''0000000000000010\<newline>'' @ ''1110110000010000\<newline>'' @
            ''0000000000000011\<newline>'' @ ''1110000010010000\<newline>'' @
            ''0000000000000000\<newline>'' @ ''1110001100001000\<newline>'')"
  unfolding assemble_def first_pass_lines_eq second_pass_lines_eq
  by (simp add: eval_defs)

section \<open>Symbol extraction\<close>

text \<open>
  C7. Asking for the symbol of a line classified as a C-instruction raises (a
  \<^verbatim>\<open>ValueError\<close>) and returns no value; on an A-instruction it returns the text after
  the \<^verbatim>\<open>@\<close>, on a label the text between the opening parenthesis and the last
  character, so \<^verbatim>\<open>(NAME)\<close> yields \<^verbatim>\<open>NAME\<close>.
\<close>

theorem symbol_usage:
  "(instruction_type instr = C_INSTRUCTION \<longrightarrow> symbol instr = Inl ValueError)
   \<and> symbol (CHR ''@'' # name) = Inr name
   \<and> symbol (CHR ''('' # rest) = Inr (butlast rest)
   \<and> symbol (CHR ''('' # name @ '')'') = Inr name"
  by (simp add: symbol_def instruction_type_def py_startswith_def butlast_append)

theorem symbol_usage_witness:
  "instruction_type ''D=A;JMP'' = C_INSTRUCTION \<and> symbol ''D=A;JMP'' = Inl ValueError
   \<and> symbol ''@LOOP'' = Inr ''LOOP'' \<and> symbol ''(LOOP)'' = Inr ''LOOP''"
proof -
  have "instruction_type ''D=A;JMP'' = C_INSTRUCTION"
    by (simp add: instruction_type_def py_startswith_def)
  then show ?thesis
    using symbol_usage [of "''D=A;JMP''" "''LOOP''" "''LOOP)''"] by simp
qed

section \<open>The encoding tables\<close>

lemma map_of_width:
  assumes "\<forall>(k, v) \<in> set xs. P v" and "P d"
  shows "P (case map_of xs m of Some code \<Rightarrow> code | None \<Rightarrow> d)"
  using assms by (auto split: option.splits dest: map_of_SomeD)

lemma Code_dest_width: "length (Code_dest m) = 3 \<and> set (Code_dest m) \<subseteq> {CHR ''0'', CHR ''1''}"
  unfolding Code_dest_def
  by (rule map_of_width) (simp_all add: dest_table_def)

lemma Code_jump_width: "length (Code_jump m) = 3 \<and> set (Code_jump m) \<subseteq> {CHR ''0'', CHR ''1''}"
  unfolding Code_jump_def
  by (rule map_of_width) (simp_all add: jump_table_def)

lemma Code_comp_width: "length (Code_comp m) = 7 \<and> set (Code_comp m) \<subseteq> {CHR ''0'', CHR ''1''}"
  unfolding Code_comp_def
  by (rule map_of_width) (simp_all add: comp_table_def)

text \<open>
  C6. A destination, computation or jump mnemonic that is not a key of its table is
  encoded as the all-zero code of the field's width (\<^verbatim>\<open>000\<close>, \<^verbatim>\<open>0000000\<close>, \<^verbatim>\<open>000\<close>); the
  lookups raise nothing, every code has the width of its field, and so every
  C-instruction, whatever its mnemonics, is written as a word of exactly 16 binary
  digits, leaving the symbol table as it was.
\<close>

theorem unmapped_mnemonic_default:
  "(map_of dest_table d = None \<longrightarrow> Code_dest d = ''000'')
   \<and> (map_of comp_table c = None \<longrightarrow> Code_comp c = ''0000000'')
   \<and> (map_of jump_table j = None \<longrightarrow> Code_jump j = ''000'')
   \<and> length (''111'' @ Code_comp c @ Code_dest d @ Code_jump j) = 16
   \<and> (instruction_type instr = C_INSTRUCTION \<longrightarrow>
        (\<exists>w. second_pass_body instr st = Inr (st, w @ ''\<newline>'')
            \<and> length w = 16 \<and> set w \<subseteq> {CHR ''0'', CHR ''1''}))"
proof -
  have "\<exists>w. second_pass_body instr st = Inr (st, w @ ''\<newline>'')
            \<and> length w = 16 \<and> set w \<subseteq> {CHR ''0'', CHR ''1''}"
    if "instruction_type instr = C_INSTRUCTION"
  proof -
    let ?w = "''111'' @ Code_comp (Parser_comp instr) @ Code_dest (Parser_dest instr)
               @ Code_jump (Parser_jump instr)"
    have "second_pass_body instr st = Inr (st, ?w @ ''\<newline>'')"
      using that by (simp add: second_pass_body_def Let_def)
    moreover have "length ?w = 16"
      using Code_comp_width Code_dest_width Code_jump_width by simp
    moreover have "set ?w \<subseteq> {CHR ''0'', CHR ''1''}"
      using Code_comp_width [of "Parser_comp instr"] Code_dest_width [of "Parser_dest instr"]
        Code_jump_width [of "Parser_jump instr"] by auto
    ultimately show ?thesis by blast
  qed
  moreover have "length (''111'' @ Code_comp c @ Code_dest d @ Code_jump j) = 16"
    using Code_comp_width Code_dest_width Code_jump_width by simp
  ultimately show ?thesis
    by (simp add: Code_dest_def Code_comp_def Code_jump_def)
qed

theorem unmapped_mnemonic_default_witness:
  "map_of dest_table ''X'' = None \<and> Code_dest ''X'' = ''000''
   \<and> map_of comp_table ''D+2'' = None \<and> Code_comp ''D+2'' = ''0000000''
   \<and> map_of jump_table ''JXX'' = None \<and> Code_jump ''JXX'' = ''000''
   \<and> instruction_type ''X=D+2;JXX'' = C_INSTRUCTION
   \<and> second_pass_body ''X=D+2;JXX'' SymbolTable_init
        = Inr (SymbolTable_init, ''1110000000000000\<newline>'')"
proof -
  have h: "map_of dest_table ''X'' = None" "map_of comp_table ''D+2'' = None"
    "map_of jump_table ''JXX'' = None" "instruction_type ''X=D+2;JXX'' = C_INSTRUCTION"
    by (simp_all add: dest_table_def comp_table_def jump_table_def instruction_type_def
          py_startswith_def)
  have p: "Parser_dest ''X=D+2;JXX'' = ''X''" "Parser_comp ''X=D+2;JXX'' = ''D+2''"
    "Parser_jump ''X=D+2;JXX'' = ''JXX''"
    by (simp_all add: Parser_dest_def Parser_comp_def Parser_jump_def)
  from h unmapped_mnemonic_default [of "''X''" "''D+2''" "''JXX''" "''X=D+2;JXX''" SymbolTable_init]
  have "Code_dest ''X'' = ''000''" "Code_comp ''D+2'' = ''0000000''" "Code_jump ''JXX'' = ''000''"
    by simp_all
  with h p show ?thesis
    by (simp add: second_pass_body_def Let_def)
qed

lemma table_lookup_bij:
  assumes "distinct (map fst xs)" and "distinct (map snd xs)"
  shows "bij_betw (\<lambda>k. case map_of xs k of Some v \<Rightarrow> v | None \<Rightarrow> d)
           (set (map fst xs)) (set (map snd xs))"
proof -
  let ?f = "\<lambda>k. case map_of xs k of Some v \<Rightarrow> v | None \<Rightarrow> d"
  have look: "?f k = v" if "(k, v) \<in> set xs" for k v
    using that assms(1) by simp
  have inj: "inj_on snd (set xs)" using assms(2) by (simp add: distinct_map)
  have "inj_on ?f (set (map fst xs))"
  proof (rule inj_onI)
    fix k1 k2
    assume "k1 \<in> set (map fst xs)" "k2 \<in> set (map fst xs)" and eq: "?f k1 = ?f k2"
    then obtain v1 v2 where m: "(k1, v1) \<in> set xs" "(k2, v2) \<in> set xs" by auto
    with look [of k1 v1] look [of k2 v2] eq have "v1 = v2" by simp
    with inj_onD [OF inj, of "(k1, v1)" "(k2, v2)"] m have "(k1, v1) = (k2, v2)" by simp
    then show "k1 = k2" by simp
  qed
  moreover have "?f ` set (map fst xs) = set (map snd xs)"
  proof (intro equalityI subsetI)
    fix v assume "v \<in> ?f ` set (map fst xs)"
    then obtain k v' where "(k, v') \<in> set xs" "v = ?f k" by auto
    with look [of k v'] show "v \<in> set (map snd xs)" by force
  next
    fix v assume "v \<in> set (map snd xs)"
    then obtain k where kv: "(k, v) \<in> set xs" by auto
    then have "k \<in> set (map fst xs)" by force
    with look [OF kv] show "v \<in> ?f ` set (map fst xs)" by force
  qed
  ultimately show ?thesis by (simp add: bij_betw_def)
qed

text \<open>
  C8. The destination, computation and jump tables have 8, 28 and 8 entries; every
  mnemonic is looked up to the bit pattern listed for it; in each table the mnemonics
  are pairwise distinct and so are the codes, so that the lookup is a bijection between
  the mnemonics of the table and its codes.
\<close>

theorem encoding_tables_bijective:
  "length dest_table = 8 \<and> length comp_table = 28 \<and> length jump_table = 8
   \<and> map Code_dest [[], ''M'', ''D'', ''MD'', ''A'', ''AM'', ''AD'', ''AMD'']
       = [''000'', ''001'', ''010'', ''011'', ''100'', ''101'', ''110'', ''111'']
   \<and> map Code_jump [[], ''JGT'', ''JEQ'', ''JGE'', ''JLT'', ''JNE'', ''JLE'', ''JMP'']
       = [''000'', ''001'', ''010'', ''011'', ''100'', ''101'', ''110'', ''111'']
   \<and> map Code_comp [''0'', ''1'', ''-1'', ''D'', ''A'', ''!D'', ''!A'', ''-D'', ''-A'',
                     ''D+1'', ''A+1'', ''D-1'', ''A-1'', ''D+A'', ''D-A'', ''A-D'', ''D&A'', ''D|A'']
       = [''0101010'', ''0111111'', ''0111010'', ''0001100'', ''0110000'', ''0001101'',
          ''0110001'', ''0001111'', ''0110011'', ''0011111'', ''0110111'', ''0001110'',
          ''0110010'', ''0000010'', ''0010011'', ''0000111'', ''0000000'', ''0010101'']
   \<and> map Code_comp [''M'', ''!M'', ''-M'', ''M+1'', ''M-1'', ''D+M'', ''D-M'', ''M-D'',
                     ''D&M'', ''D|M'']
       = [''1110000'', ''1110001'', ''1110011'', ''1110111'', ''1110010'', ''1000010'',
          ''1010011'', ''1000111'', ''1000000'', ''1010101'']
   \<and> distinct (map fst dest_table) \<and> distinct (map snd dest_table)
   \<and> distinct (map fst comp_table) \<and> distinct (map snd comp_table)
   \<and> distinct (map fst jump_table) \<and> distinct (map snd jump_table)
   \<and> bij_betw Code_dest (set (map fst dest_table)) (set (map snd dest_table))
   \<and> bij_betw Code_comp (set (map fst comp_table)) (set (map snd comp_table))
   \<and> bij_betw Code_jump (set (map fst jump_table)) (set (map snd jump_table))"
proof -
  have sizes: "length dest_table = 8" "length comp_table = 28" "length jump_table = 8"
    by (simp_all add: dest_table_def comp_table_def jump_table_def)
  have d: "distinct (map fst dest_table)" "distinct (map snd dest_table)"
    by (simp_all add: dest_table_def)
  have j: "distinct (map fst jump_table)" "distinct (map snd jump_table)"
    by (simp_all add: jump_table_def)
  have c1: "distinct (map fst comp_table)"
    by (simp add: comp_table_def)
  have c2: "distinct (map snd comp_table)"
    by (simp add: comp_table_def)
  have ed: "map Code_dest [[], ''M'', ''D'', ''MD'', ''A'', ''AM'', ''AD'', ''AMD'']
       = [''000'', ''001'', ''010'', ''011'', ''100'', ''101'', ''110'', ''111'']"
    by (simp add: Code_dest_def dest_table_def)
  have ej: "map Code_jump [[], ''JGT'', ''JEQ'', ''JGE'', ''JLT'', ''JNE'', ''JLE'', ''JMP'']
       = [''000'', ''001'', ''010'', ''011'', ''100'', ''101'', ''110'', ''111'']"
    by (simp add: Code_jump_def jump_table_def)
  have ec1: "map Code_comp [''0'', ''1'', ''-1'', ''D'', ''A'', ''!D'', ''!A'', ''-D'', ''-A'',
                     ''D+1'', ''A+1'', ''D-1'', ''A-1'', ''D+A'', ''D-A'', ''A-D'', ''D&A'', ''D|A'']
       = [''0101010'', ''0111111'', ''0111010'', ''0001100'', ''0110000'', ''0001101'',
          ''0110001'', ''0001111'', ''0110011'', ''0011111'', ''0110111'', ''0001110'',
          ''0110010'', ''0000010'', ''0010011'', ''0000111'', ''0000000'', ''0010101'']"
    by (simp add: Code_comp_def comp_table_def)
  have ec2: "map Code_comp [''M'', ''!M'', ''-M'', ''M+1'', ''M-1'', ''D+M'', ''D-M'', ''M-D'',
                     ''D&M'', ''D|M'']
       = [''1110000'', ''1110001'', ''1110011'', ''1110111'', ''1110010'', ''1000010'',
          ''1010011'', ''1000111'', ''1000000'', ''1010101'']"
    by (simp add: Code_comp_def comp_table_def)
  have bd: "bij_betw Code_dest (set (map fst dest_table)) (set (map snd dest_table))"
    using table_lookup_bij [OF d, of "''000''"] by (simp add: Code_dest_def [abs_def])
  have bj: "bij_betw Code_jump (set (map fst jump_table)) (set (map snd jump_table))"
    using table_lookup_bij [OF j, of "''000''"] by (simp add: Code_jump_def [abs_def])
  have bc: "bij_betw Code_comp (set (map fst comp_table)) (set (map snd comp_table))"
    using table_lookup_bij [OF c1 c2, of "''0000000''"] by (simp add: Code_comp_def [abs_def])
  from sizes d j c1 c2 ed ej ec1 ec2 bd bj bc show ?thesis by blast
qed

section \<open>The first pass\<close>

lemma symbol_label: "instruction_type l = L_INSTRUCTION \<Longrightarrow> symbol l = Inr (butlast (drop 1 l))"
  by (simp add: symbol_def)

lemma first_pass_lines_append:
  "first_pass_lines st rom (xs @ ys) =
     (case first_pass_lines st rom xs of
        Inl e \<Rightarrow> Inl e
      | Inr (st', rom') \<Rightarrow> first_pass_lines st' rom' ys)"
  by (induction xs arbitrary: st rom) (auto split: sum.splits)

text \<open>The first pass never raises, counts the instructions that are no labels, and leaves
  the variable counter alone.\<close>

lemma first_pass_lines_total:
  "\<exists>st'. first_pass_lines st rom ls =
           Inr (st', rom + int (length (filter (\<lambda>l. instruction_type l \<noteq> L_INSTRUCTION) ls)))
         \<and> next_variable_address st' = next_variable_address st"
proof (induction ls arbitrary: st rom)
  case Nil
  show ?case by simp
next
  case (Cons l ls)
  show ?case
  proof (cases "instruction_type l = L_INSTRUCTION")
    case True
    with Cons [of "add_entry st (butlast (drop 1 l)) rom" rom] show ?thesis
      by (simp add: symbol_label add_entry_def)
  next
    case False
    with Cons [of st "rom + 1"] show ?thesis
      by (simp add: add.assoc)
  qed
qed

text \<open>A name that no label of the lines declares keeps its entry.\<close>

lemma first_pass_lines_other:
  assumes "first_pass_lines st rom ls = Inr (st', rom')"
    and "\<forall>l \<in> set ls. instruction_type l = L_INSTRUCTION \<longrightarrow> symbol l \<noteq> Inr name"
  shows "table st' name = table st name"
  using assms
proof (induction ls arbitrary: st rom)
  case Nil
  then show ?case by simp
next
  case (Cons l ls)
  show ?case
  proof (cases "instruction_type l = L_INSTRUCTION")
    case True
    then have ne: "butlast (drop 1 l) \<noteq> name" using Cons.prems(2) by (simp add: symbol_label)
    have "first_pass_lines (add_entry st (butlast (drop 1 l)) rom) rom ls = Inr (st', rom')"
      using Cons.prems(1) True by (simp add: symbol_label)
    then have "table st' name = table (add_entry st (butlast (drop 1 l)) rom) name"
      using Cons.prems(2) by (intro Cons.IH) simp_all
    with ne show ?thesis by (simp add: add_entry_def)
  next
    case False
    then have "first_pass_lines st (rom + 1) ls = Inr (st', rom')"
      using Cons.prems(1) by simp
    then show ?thesis using Cons.prems(2) by (intro Cons.IH) simp_all
  qed
qed

text \<open>
  C2. Whatever the raw lines are: when the normalized program is \<open>pre\<close>, then a label
  declaration, then \<open>post\<close>, the first pass ends without an exception, and on reaching
  the declaration it records for the label's name the number of lines of \<open>pre\<close> that are
  not labels (the table of the loop run over the program up to and including the
  declaration holds it). When no line of \<open>post\<close> declares the same name again, that is
  the address in the table at the end of the pass. Blank lines and comments are not in
  the normalized program, and labels are not counted.
\<close>

theorem label_address_counts_instructions:
  assumes "preprocess_lines raw = pre @ decl # post"
    and "instruction_type decl = L_INSTRUCTION"
  shows "\<exists>name st_decl rom_decl st rom.
           symbol decl = Inr name
         \<and> first_pass \<lparr>lines = pre @ [decl], current_line = - 1, current_instruction = None\<rparr>
               SymbolTable_init 0 = Inr (st_decl, rom_decl)
         \<and> table st_decl name =
             Some (int (length (filter (\<lambda>l. instruction_type l \<noteq> L_INSTRUCTION) pre)))
         \<and> first_pass (Parser_init raw) SymbolTable_init 0 = Inr (st, rom)
         \<and> ((\<forall>l \<in> set post. instruction_type l = L_INSTRUCTION \<longrightarrow> symbol l \<noteq> Inr name)
              \<longrightarrow> table st name =
                Some (int (length (filter (\<lambda>l. instruction_type l \<noteq> L_INSTRUCTION) pre))))"
proof -
  let ?name = "butlast (drop 1 decl)"
  let ?n = "int (length (filter (\<lambda>l. instruction_type l \<noteq> L_INSTRUCTION) pre))"
  let ?p = "\<lparr>lines = pre @ [decl], current_line = - 1, current_instruction = None\<rparr>"
  have sy: "symbol decl = Inr ?name" using assms(2) by (rule symbol_label)
  obtain st1 where st1: "first_pass_lines SymbolTable_init 0 pre = Inr (st1, ?n)"
    using first_pass_lines_total [of SymbolTable_init 0 pre] by auto
  have "first_pass ?p SymbolTable_init 0 = first_pass_lines SymbolTable_init 0 (pre @ [decl])"
    using first_pass_drop [of ?p 0 SymbolTable_init 0] by simp
  then have upto: "first_pass ?p SymbolTable_init 0 = Inr (add_entry st1 ?name ?n, ?n)"
    unfolding first_pass_lines_append using st1 assms(2) sy by simp
  have here: "table (add_entry st1 ?name ?n) ?name = Some ?n" by (simp add: add_entry_def)
  obtain st2 rom2 where st2: "first_pass_lines (add_entry st1 ?name ?n) ?n post = Inr (st2, rom2)"
    using first_pass_lines_total [of "add_entry st1 ?name ?n" ?n post] by blast
  have run: "first_pass (Parser_init raw) SymbolTable_init 0 = Inr (st2, rom2)"
    unfolding first_pass_lines_eq assms(1) first_pass_lines_append
    using st1 st2 assms(2) sy by simp
  have "table st2 ?name = Some ?n"
    if "\<forall>l \<in> set post. instruction_type l = L_INSTRUCTION \<longrightarrow> symbol l \<noteq> Inr ?name"
  proof -
    have "table st2 ?name = table (add_entry st1 ?name ?n) ?name"
      using st2 that by (rule first_pass_lines_other)
    with here show ?thesis by simp
  qed
  with sy upto here run show ?thesis by blast
qed

theorem label_address_counts_instructions_witness:
  "preprocess_lines [''// start\<newline>'', ''@i\<newline>'', ''\<newline>'', ''(LOOP)\<newline>'', ''M=M+1 // bump\<newline>'',
                     ''(END)\<newline>'', ''@LOOP\<newline>'', ''0;JMP\<newline>'']
     = [''@i'', ''(LOOP)'', ''M=M+1''] @ ''(END)'' # [''@LOOP'', ''0;JMP'']
   \<and> instruction_type ''(END)'' = L_INSTRUCTION
   \<and> symbol ''(END)'' = Inr ''END''
   \<and> (\<exists>st rom. first_pass (Parser_init [''// start\<newline>'', ''@i\<newline>'', ''\<newline>'', ''(LOOP)\<newline>'',
                     ''M=M+1 // bump\<newline>'', ''(END)\<newline>'', ''@LOOP\<newline>'', ''0;JMP\<newline>''])
                  SymbolTable_init 0 = Inr (st, rom)
         \<and> table st ''END'' = Some 2)"
proof -
  let ?raw = "[''// start\<newline>'', ''@i\<newline>'', ''\<newline>'', ''(LOOP)\<newline>'', ''M=M+1 // bump\<newline>'',
               ''(END)\<newline>'', ''@LOOP\<newline>'', ''0;JMP\<newline>'']"
  have norm: "preprocess_lines ?raw = [''@i'', ''(LOOP)'', ''M=M+1''] @ ''(END)'' # [''@LOOP'', ''0;JMP'']"
    by (simp add: preprocess_lines_def py_strip_def isspace_def py_startswith_def)
  have ty: "instruction_type ''(END)'' = L_INSTRUCTION"
    by (simp add: instruction_type_def py_startswith_def)
  have sy: "symbol ''(END)'' = Inr ''END''"
    by (simp add: symbol_def instruction_type_def py_startswith_def)
  have later: "\<forall>l \<in> set [''@LOOP'', ''0;JMP'']. instruction_type l = L_INSTRUCTION \<longrightarrow> symbol l \<noteq> Inr ''END''"
    by (simp add: instruction_type_def py_startswith_def)
  have cnt: "int (length (filter (\<lambda>l. instruction_type l \<noteq> L_INSTRUCTION) [''@i'', ''(LOOP)'', ''M=M+1''])) = 2"
    by (simp add: instruction_type_def py_startswith_def)
  show ?thesis
    using label_address_counts_instructions [OF norm ty] later norm ty sy
    unfolding cnt by auto
qed

section \<open>The symbol table through both passes\<close>

lemma add_variable_present:
  "table st n = Some a \<Longrightarrow> add_variable st n = Inr (st, a)"
  by (simp add: add_variable_def contains_def)

lemma add_variable_absent:
  "table st n = None \<Longrightarrow>
   add_variable st n =
     Inr (st\<lparr>table := (table st)(n \<mapsto> next_variable_address st),
              next_variable_address := next_variable_address st + 1\<rparr>,
          next_variable_address st)"
  by (simp add: add_variable_def contains_def Let_def)

lemma add_variable_keeps:
  assumes "add_variable st n = Inr (st', a)" and "table st p \<noteq> None"
  shows "table st' p = table st p"
proof (cases "table st n")
  case None
  with assms(2) have "n \<noteq> p" by auto
  with assms(1) None show ?thesis by (auto simp: add_variable_absent)
next
  case (Some b)
  with assms(1) show ?thesis by (simp add: add_variable_present)
qed

lemma a_instruction_value_keeps:
  assumes "a_instruction_value st s = Inr (st', v)" and "table st p \<noteq> None"
  shows "table st' p = table st p"
  using assms
  by (auto simp: a_instruction_value_def split: if_splits sum.splits option.splits
           dest: add_variable_keeps)

lemma second_pass_body_keeps:
  assumes "second_pass_body instr st = Inr (st', w)" and "table st p \<noteq> None"
  shows "table st' p = table st p"
  using assms
  by (auto simp: second_pass_body_def Let_def split: if_splits sum.splits
           dest: a_instruction_value_keeps)

lemma second_pass_lines_keeps:
  assumes "second_pass_lines st f ls = Inr (st', out)" and "table st p \<noteq> None"
  shows "table st' p = table st p"
  using assms
proof (induction ls arbitrary: st f)
  case Nil
  then show ?case by simp
next
  case (Cons l ls)
  from Cons.prems(1) obtain st1 w where b: "second_pass_body l st = Inr (st1, w)"
    and r: "second_pass_lines st1 (f @ w) ls = Inr (st', out)"
    by (auto split: sum.splits)
  have k: "table st1 p = table st p" using b Cons.prems(2) by (rule second_pass_body_keeps)
  with Cons.prems(2) have "table st1 p \<noteq> None" by simp
  with r have "table st' p = table st1 p" by (rule Cons.IH)
  with k show ?case by simp
qed

text \<open>
  C5, as amended. From construction, with no call of \<^verbatim>\<open>add_entry\<close> or \<^verbatim>\<open>add_variable\<close>,
  the predefined symbols map to their fixed addresses. \<^verbatim>\<open>add_variable\<close> never changes
  the address of a name that is already in the table, and \<^verbatim>\<open>add_entry\<close> changes no name
  but the one it is given. Hence a predefined name that no label of the program declares
  keeps its address through both passes.
\<close>

theorem predefined_symbols_fixed:
  "map (table SymbolTable_init)
     [''SP'', ''LCL'', ''ARG'', ''THIS'', ''THAT'', ''R0'', ''R1'', ''R2'', ''R3'', ''R4'', ''R5'',
      ''R6'', ''R7'', ''R8'', ''R9'', ''R10'', ''R11'', ''R12'', ''R13'', ''R14'', ''R15'',
      ''SCREEN'', ''KBD'']
     = map Some [0, 1, 2, 3, 4, 0, 1, 2, 3, 4, 5, 6, 7, 8, 9, 10, 11, 12, 13, 14, 15, 16384, 24576]
   \<and> (table st p \<noteq> None \<longrightarrow> add_variable st s = Inr (st', a) \<longrightarrow> table st' p = table st p)
   \<and> (label \<noteq> p \<longrightarrow> table (add_entry st label address) p = table st p)
   \<and> ((\<forall>l \<in> set (preprocess_lines raw).
          instruction_type l = L_INSTRUCTION \<longrightarrow> symbol l \<noteq> Inr q)
        \<longrightarrow> table SymbolTable_init q \<noteq> None
        \<longrightarrow> first_pass (Parser_init raw) SymbolTable_init 0 = Inr (st1, rom)
        \<longrightarrow> second_pass (Parser_init raw) st1 [] = Inr (st2, out)
        \<longrightarrow> table st1 q = table SymbolTable_init q \<and> table st2 q = table SymbolTable_init q)"
proof -
  have lit: "map (table SymbolTable_init)
     [''SP'', ''LCL'', ''ARG'', ''THIS'', ''THAT'', ''R0'', ''R1'', ''R2'', ''R3'', ''R4'', ''R5'',
      ''R6'', ''R7'', ''R8'', ''R9'', ''R10'', ''R11'', ''R12'', ''R13'', ''R14'', ''R15'',
      ''SCREEN'', ''KBD'']
     = map Some [0, 1, 2, 3, 4, 0, 1, 2, 3, 4, 5, 6, 7, 8, 9, 10, 11, 12, 13, 14, 15, 16384, 24576]"
    by (simp add: SymbolTable_init_def predefined_def)
  have av: "table st' p = table st p"
    if "table st p \<noteq> None" "add_variable st s = Inr (st', a)"
    using that(2,1) by (rule add_variable_keeps)
  have ae: "table (add_entry st label address) p = table st p" if "label \<noteq> p"
    using that by (simp add: add_entry_def)
  have run: "table st1 q = table SymbolTable_init q \<and> table st2 q = table SymbolTable_init q"
    if nolab: "\<forall>l \<in> set (preprocess_lines raw).
          instruction_type l = L_INSTRUCTION \<longrightarrow> symbol l \<noteq> Inr q"
      and pre: "table SymbolTable_init q \<noteq> None"
      and p1: "first_pass (Parser_init raw) SymbolTable_init 0 = Inr (st1, rom)"
      and p2: "second_pass (Parser_init raw) st1 [] = Inr (st2, out)"
  proof -
    have one: "table st1 q = table SymbolTable_init q"
      using p1 nolab unfolding first_pass_lines_eq by (rule first_pass_lines_other)
    with pre have "table st1 q \<noteq> None" by simp
    with p2 have "table st2 q = table st1 q"
      unfolding second_pass_lines_eq by (rule second_pass_lines_keeps)
    with one show ?thesis by simp
  qed
  from lit av ae run show ?thesis by blast
qed

theorem predefined_symbols_fixed_witness:
  "table SymbolTable_init ''KBD'' = Some 24576
   \<and> add_variable SymbolTable_init ''i''
       = Inr (SymbolTable_init\<lparr>table := (table SymbolTable_init)(''i'' \<mapsto> 16),
                               next_variable_address := 17\<rparr>, 16)
   \<and> table (SymbolTable_init\<lparr>table := (table SymbolTable_init)(''i'' \<mapsto> 16),
                               next_variable_address := 17\<rparr>) ''KBD'' = Some 24576
   \<and> table (add_entry SymbolTable_init ''LOOP'' 0) ''KBD'' = Some 24576
   \<and> (\<exists>st1 rom st2 out.
         first_pass (Parser_init [''(LOOP)'', ''@i'', ''M=M+1'', ''@LOOP'', ''0;JMP''])
           SymbolTable_init 0 = Inr (st1, rom)
       \<and> second_pass (Parser_init [''(LOOP)'', ''@i'', ''M=M+1'', ''@LOOP'', ''0;JMP''])
           st1 [] = Inr (st2, out)
       \<and> table st1 ''KBD'' = Some 24576 \<and> table st2 ''KBD'' = Some 24576)"
proof -
  let ?raw = "[''(LOOP)'', ''@i'', ''M=M+1'', ''@LOOP'', ''0;JMP'']"
  let ?st1 = "add_entry SymbolTable_init ''LOOP'' 0"
  let ?sti = "SymbolTable_init\<lparr>table := (table SymbolTable_init)(''i'' \<mapsto> 16),
                               next_variable_address := 17\<rparr>"
  have kbd: "table SymbolTable_init ''KBD'' = Some 24576"
    by (simp add: SymbolTable_init_def predefined_def)
  have av: "add_variable SymbolTable_init ''i'' = Inr (?sti, 16)"
    by (simp add: add_variable_def contains_def SymbolTable_init_def predefined_def)
  have nolab: "\<forall>l \<in> set (preprocess_lines ?raw).
          instruction_type l = L_INSTRUCTION \<longrightarrow> symbol l \<noteq> Inr ''KBD''"
    by (simp add: preprocess_lines_def py_strip_def isspace_def py_startswith_def
          instruction_type_def symbol_def)
  have p1: "first_pass (Parser_init ?raw) SymbolTable_init 0 = Inr (?st1, 4)"
    unfolding first_pass_lines_eq by (simp add: eval_defs)
  have "\<exists>st2 out. second_pass (Parser_init ?raw) ?st1 [] = Inr (st2, out)"
    unfolding second_pass_lines_eq by (simp add: eval_defs)
  then obtain st2 out where p2: "second_pass (Parser_init ?raw) ?st1 [] = Inr (st2, out)"
    by blast
  have ne: "''LOOP'' \<noteq> ''KBD''" "''i'' \<noteq> ''KBD''" by simp_all
  from predefined_symbols_fixed [where st = SymbolTable_init and p = "''KBD''" and s = "''i''"
      and st' = ?sti and a = 16 and label = "''LOOP''" and address = 0 and raw = ?raw
      and q = "''KBD''" and ?st1.0 = ?st1 and rom = 4 and ?st2.0 = st2 and out = out]
    kbd av nolab p1 p2
  have "table ?sti ''KBD'' = Some 24576"
    "table (add_entry SymbolTable_init ''LOOP'' 0) ''KBD'' = Some 24576"
    "table ?st1 ''KBD'' = Some 24576" "table st2 ''KBD'' = Some 24576"
    by simp_all
  then show ?thesis using kbd av p1 p2 by blast
qed

text \<open>
  C5 as stated fails: \<^verbatim>\<open>add_entry\<close> overwrites. A label named \<^verbatim>\<open>SCREEN\<close> moves
  \<^verbatim>\<open>SCREEN\<close> from 16384 to the label's address 0, and \<^verbatim>\<open>@SCREEN\<close> then assembles to
  the word of 0.
\<close>

theorem predefined_symbol_overwritten:
  "first_pass (Parser_init [''(SCREEN)\<newline>'', ''@SCREEN\<newline>'']) SymbolTable_init 0
     = Inr (add_entry SymbolTable_init ''SCREEN'' 0, 1)
   \<and> table SymbolTable_init ''SCREEN'' = Some 16384
   \<and> table (add_entry SymbolTable_init ''SCREEN'' 0) ''SCREEN'' = Some 0
   \<and> assemble [''(SCREEN)\<newline>'', ''@SCREEN\<newline>''] = Inr ''0000000000000000\<newline>''
   \<and> assemble [''@SCREEN\<newline>''] = Inr ''0100000000000000\<newline>''"
  unfolding assemble_def first_pass_lines_eq second_pass_lines_eq
  by (simp add: eval_defs)

section \<open>Variable allocation\<close>









section \<open>The word of an A-instruction\<close>

lemma zero_pad_snoc: "zero_pad (Suc k) (xs @ [c]) = zero_pad k xs @ [c]"
  by (simp add: zero_pad_def)

lemma bits_Suc:
  "map (\<lambda>i. if bit n (Suc k - 1 - i) then CHR ''1'' else CHR ''0'') [0..<Suc k]
     = map (\<lambda>i. if bit (n div 2) (k - 1 - i) then CHR ''1'' else CHR ''0'') [0..<k]
       @ [if odd n then CHR ''1'' else CHR ''0'']"
  for n :: nat
proof -
  have "bit n (Suc k - 1 - i) = bit (n div 2) (k - 1 - i)" if "i < k" for i
  proof -
    have "Suc k - 1 - i = Suc (k - 1 - i)" using that by simp
    then show ?thesis by (simp add: bit_Suc)
  qed
  then show ?thesis by (simp add: bit_0)
qed

text \<open>Padded to \<open>k\<close> digits, the binary digits of \<open>n < 2 ^ k\<close> are its bits \<open>k - 1\<close> down to 0.\<close>

lemma zero_pad_bin_digits:
  "n < 2 ^ k \<Longrightarrow> 0 < k \<Longrightarrow>
   zero_pad k (bin_digits n)
     = map (\<lambda>i. if bit n (k - 1 - i) then CHR ''1'' else CHR ''0'') [0..<k]"
proof (induction k arbitrary: n)
  case 0
  then show ?case by simp
next
  case (Suc k)
  show ?case
  proof (cases "n < 2")
    case True
    then have z: "n div 2 = 0" by simp
    have "zero_pad (Suc k) (bin_digits n)
            = replicate k CHR ''0'' @ [if n = 0 then CHR ''0'' else CHR ''1'']"
      using True by (simp add: bin_digits.simps zero_pad_def)
    moreover have "map (\<lambda>i. if bit (0::nat) (k - 1 - i) then CHR ''1'' else CHR ''0'') [0..<k]
            = replicate k CHR ''0''"
      by (simp add: map_replicate_const)
    moreover have "odd n \<longleftrightarrow> n \<noteq> 0" using True by presburger
    ultimately show ?thesis unfolding bits_Suc z by simp
  next
    case False
    have k: "0 < k"
    proof (rule ccontr)
      assume "\<not> 0 < k"
      then have "k = 0" by simp
      with Suc.prems False show False by simp
    qed
    have h: "n div 2 < 2 ^ k" using Suc.prems by simp
    have "bin_digits n = bin_digits (n div 2) @ [if n mod 2 = 0 then CHR ''0'' else CHR ''1'']"
      using False by (subst bin_digits.simps) simp
    then have "zero_pad (Suc k) (bin_digits n)
        = zero_pad k (bin_digits (n div 2)) @ [if n mod 2 = 0 then CHR ''0'' else CHR ''1'']"
      by (simp add: zero_pad_snoc)
    also have "zero_pad k (bin_digits (n div 2))
        = map (\<lambda>i. if bit (n div 2) (k - 1 - i) then CHR ''1'' else CHR ''0'') [0..<k]"
      using h k by (rule Suc.IH)
    finally show ?thesis unfolding bits_Suc by (simp add: odd_iff_mod_2_eq_one)
  qed
qed

lemma format_016b_15_bits:
  assumes "0 \<le> v" and "v < 32768"
  shows "format_016b v
           = CHR ''0'' # map (\<lambda>i. if bit v (14 - i) then CHR ''1'' else CHR ''0'') [0..<15]"
proof -
  let ?n = "nat v"
  have n: "?n < 2 ^ 15" using assms by simp
  then have n16: "?n < 2 ^ 16" by simp
  have b: "bit ?n j = bit v j" for j using assms(1) by (simp add: bit_nat_iff)
  have hi: "\<not> bit ?n 15"
    using n by (simp add: bit_iff_odd)
  have "format_016b v = zero_pad 16 (bin_digits ?n)"
    using assms(1) by (simp add: format_016b_def)
  also have "\<dots> = map (\<lambda>i. if bit ?n (16 - 1 - i) then CHR ''1'' else CHR ''0'') [0..<16]"
    using n16 by (rule zero_pad_bin_digits) simp
  also have "\<dots> = CHR ''0'' # map (\<lambda>i. if bit ?n (14 - i) then CHR ''1'' else CHR ''0'') [0..<15]"
  proof -
    have "[0..<16] = 0 # map Suc [0..<15]"
      by (simp add: upt_conv_Cons map_Suc_upt del: upt_Suc)
    then show ?thesis using hi by (simp add: comp_def del: upt_Suc)
  qed
  finally show ?thesis by (simp add: b)
qed


lemma digit_value_nonneg: "isdecimal_char c \<Longrightarrow> 0 \<le> digit_value c"
  by (auto simp: isdecimal_char_def digit_value_def)

lemma foldl_digits_nonneg:
  "list_all isdecimal_char s \<Longrightarrow> 0 \<le> acc \<Longrightarrow>
   0 \<le> foldl (\<lambda>acc c. 10 * acc + digit_value c) acc s"
proof (induction s arbitrary: acc)
  case Nil
  then show ?case by simp
next
  case (Cons c s)
  then have "0 \<le> 10 * acc + digit_value c"
    using digit_value_nonneg [of c] by simp
  with Cons show ?case by simp
qed

lemma int_of_digits_nonneg: "int_of_digits s = Inr v \<Longrightarrow> 0 \<le> v"
  using foldl_digits_nonneg [of s 0]
  by (auto simp: int_of_digits_def split: if_splits)

text \<open>
  No address is negative: the table starts with non-negative entries, and the passes add
  only ROM addresses counted up from 0 and variable addresses counted up from 16.
\<close>

lemma SymbolTable_init_nonneg:
  "(\<forall>n a. table SymbolTable_init n = Some a \<longrightarrow> 0 \<le> a)
   \<and> 0 \<le> next_variable_address SymbolTable_init"
proof -
  have "\<forall>(n, a) \<in> set predefined. 0 \<le> a" by (simp add: predefined_def)
  then show ?thesis
    by (auto simp: SymbolTable_init_def dest!: map_of_SomeD)
qed

lemma a_instruction_value_nonneg:
  assumes "a_instruction_value st s = Inr (st', v)"
    and "\<forall>n a. table st n = Some a \<longrightarrow> 0 \<le> a" and "0 \<le> next_variable_address st"
  shows "0 \<le> v \<and> (\<forall>n a. table st' n = Some a \<longrightarrow> 0 \<le> a) \<and> 0 \<le> next_variable_address st'"
proof (cases "py_isdigit s")
  case True
  with assms(1) have "int_of_digits s = Inr v" "st' = st"
    by (auto simp: a_instruction_value_def split: sum.splits)
  with assms(2,3) int_of_digits_nonneg [of s v] show ?thesis by simp
next
  case False
  show ?thesis
  proof (cases "table st s")
    case None
    with False assms(1) have "v = next_variable_address st"
      and "st' = st\<lparr>table := (table st)(s \<mapsto> next_variable_address st),
                     next_variable_address := next_variable_address st + 1\<rparr>"
      by (auto simp: a_instruction_value_def contains_def add_variable_absent)
    with assms(2,3) show ?thesis by auto
  next
    case (Some a)
    with False assms(1) have "v = a" "st' = st"
      by (auto simp: a_instruction_value_def contains_def get_address_def)
    with assms(2,3) Some show ?thesis by auto
  qed
qed

lemma second_pass_body_nonneg:
  assumes "second_pass_body instr st = Inr (st', w)"
    and "\<forall>n a. table st n = Some a \<longrightarrow> 0 \<le> a" and "0 \<le> next_variable_address st"
  shows "(\<forall>n a. table st' n = Some a \<longrightarrow> 0 \<le> a) \<and> 0 \<le> next_variable_address st'"
proof (cases "instruction_type instr = A_INSTRUCTION")
  case True
  with assms(1) obtain v where "a_instruction_value st (drop 1 instr) = Inr (st', v)"
    by (auto simp: second_pass_body_def symbol_def split: sum.splits)
  from a_instruction_value_nonneg [OF this assms(2,3)] show ?thesis by simp
next
  case False
  with assms(1) have "st' = st"
    by (auto simp: second_pass_body_def Let_def split: if_splits)
  with assms(2,3) show ?thesis by simp
qed

lemma second_pass_lines_nonneg:
  assumes "second_pass_lines st f ls = Inr (st', out)"
    and "\<forall>n a. table st n = Some a \<longrightarrow> 0 \<le> a" and "0 \<le> next_variable_address st"
  shows "(\<forall>n a. table st' n = Some a \<longrightarrow> 0 \<le> a) \<and> 0 \<le> next_variable_address st'"
  using assms
proof (induction ls arbitrary: st f)
  case Nil
  then show ?case by simp
next
  case (Cons l ls)
  from Cons.prems(1) obtain st1 w where b: "second_pass_body l st = Inr (st1, w)"
    and r: "second_pass_lines st1 (f @ w) ls = Inr (st', out)"
    by (auto split: sum.splits)
  from second_pass_body_nonneg [OF b Cons.prems(2,3)]
  have "\<forall>n a. table st1 n = Some a \<longrightarrow> 0 \<le> a" "0 \<le> next_variable_address st1"
    by simp_all
  with r show ?case by (rule Cons.IH)
qed

lemma first_pass_lines_nonneg:
  assumes "first_pass_lines st rom ls = Inr (st', rom')"
    and "\<forall>n a. table st n = Some a \<longrightarrow> 0 \<le> a" and "0 \<le> next_variable_address st"
    and "0 \<le> rom"
  shows "(\<forall>n a. table st' n = Some a \<longrightarrow> 0 \<le> a) \<and> 0 \<le> next_variable_address st'"
  using assms
proof (induction ls arbitrary: st rom)
  case Nil
  then show ?case by simp
next
  case (Cons l ls)
  show ?case
  proof (cases "instruction_type l = L_INSTRUCTION")
    case True
    let ?st1 = "add_entry st (butlast (drop 1 l)) rom"
    have r: "first_pass_lines ?st1 rom ls = Inr (st', rom')"
      using Cons.prems(1) True by (simp add: symbol_label)
    have "\<forall>n a. table ?st1 n = Some a \<longrightarrow> 0 \<le> a"
      using Cons.prems(2,4) by (auto simp: add_entry_def)
    moreover have "0 \<le> next_variable_address ?st1"
      using Cons.prems(3) by (simp add: add_entry_def)
    ultimately show ?thesis using r Cons.prems(4) Cons.IH [of ?st1 rom] by blast
  next
    case False
    then have r: "first_pass_lines st (rom + 1) ls = Inr (st', rom')"
      using Cons.prems(1) by simp
    have "0 \<le> rom + 1" using Cons.prems(4) by simp
    with r Cons.prems(2,3) Cons.IH [of st "rom + 1"] show ?thesis by blast
  qed
qed

text \<open>
  C4, as amended. For an A-instruction that the second pass encodes (from a table with no
  negative entry, as every table of a run is), the text written is the formatted
  resolved address and a newline, the address is not negative, and when it is below
  32768 the word has exactly 16 characters, its leftmost character is \<^verbatim>\<open>0\<close>, and the
  other 15 are the bits 14 down to 0 of the address.
\<close>

theorem a_instruction_word:
  assumes "instruction_type instr = A_INSTRUCTION"
    and "second_pass_body instr st = Inr (st', written)"
    and "\<forall>n a. table st n = Some a \<longrightarrow> 0 \<le> a"
    and "0 \<le> next_variable_address st"
  shows "\<exists>v. a_instruction_value st (drop 1 instr) = Inr (st', v) \<and> 0 \<le> v
           \<and> written = format_016b v @ ''\<newline>''
           \<and> (v < 32768 \<longrightarrow>
                length (format_016b v) = 16 \<and> hd (format_016b v) = CHR ''0''
                \<and> tl (format_016b v)
                    = map (\<lambda>i. if bit v (14 - i) then CHR ''1'' else CHR ''0'') [0..<15])"
proof -
  from assms(1,2) obtain v where v: "a_instruction_value st (drop 1 instr) = Inr (st', v)"
    and w: "written = format_016b v @ ''\<newline>''"
    by (auto simp: second_pass_body_def symbol_def split: sum.splits)
  have nn: "0 \<le> v" using a_instruction_value_nonneg [OF v assms(3,4)] by simp
  have "length (format_016b v) = 16 \<and> hd (format_016b v) = CHR ''0''
        \<and> tl (format_016b v)
            = map (\<lambda>i. if bit v (14 - i) then CHR ''1'' else CHR ''0'') [0..<15]"
    if "v < 32768"
    using format_016b_15_bits [OF nn that] by simp
  with v w nn show ?thesis by blast
qed

theorem a_instruction_word_witness:
  "instruction_type ''@i'' = A_INSTRUCTION
   \<and> second_pass_body ''@i'' SymbolTable_init
       = Inr (SymbolTable_init\<lparr>table := (table SymbolTable_init)(''i'' \<mapsto> 16),
                               next_variable_address := 17\<rparr>, ''0000000000010000\<newline>'')
   \<and> (16 :: int) < 32768
   \<and> length (format_016b 16) = 16 \<and> hd (format_016b 16) = CHR ''0''
   \<and> tl (format_016b 16)
       = map (\<lambda>i. if bit (16 :: int) (14 - i) then CHR ''1'' else CHR ''0'') [0..<15]"
proof -
  let ?st' = "SymbolTable_init\<lparr>table := (table SymbolTable_init)(''i'' \<mapsto> 16),
                               next_variable_address := 17\<rparr>"
  have ty: "instruction_type ''@i'' = A_INSTRUCTION"
    by (simp add: instruction_type_def py_startswith_def)
  have b: "second_pass_body ''@i'' SymbolTable_init = Inr (?st', ''0000000000010000\<newline>'')"
    by (simp add: eval_defs)
  have a: "a_instruction_value SymbolTable_init ''i'' = Inr (?st', 16)"
    by (simp add: eval_defs)
  from a_instruction_word [OF ty b] SymbolTable_init_nonneg a
  have "(16 :: int) < 32768 \<longrightarrow>
          length (format_016b 16) = 16 \<and> hd (format_016b 16) = CHR ''0''
          \<and> tl (format_016b 16)
              = map (\<lambda>i. if bit (16 :: int) (14 - i) then CHR ''1'' else CHR ''0'') [0..<15]"
    by auto
  with ty b show ?thesis by simp
qed

text \<open>
  C4 as stated fails: nothing bounds a numeric literal. \<^verbatim>\<open>@32768\<close> is written as a word
  whose leftmost bit is 1, and \<^verbatim>\<open>@65536\<close> as 17 characters.
\<close>

theorem a_instruction_word_high_bit_set:
  "assemble [''@32768\<newline>''] = Inr ''1000000000000000\<newline>''
   \<and> assemble [''@65536\<newline>''] = Inr ''10000000000000000\<newline>''"
  unfolding assemble_def first_pass_lines_eq second_pass_lines_eq
  by (simp add: eval_defs)

text \<open>What the second pass does with the reference of an A-instruction.\<close>

lemma a_instruction_value_symbolic:
  assumes "\<not> py_isdigit s"
  shows "a_instruction_value st s =
           (case table st s of
              Some a \<Rightarrow> Inr (st, a)
            | None \<Rightarrow> Inr (st\<lparr>table := (table st)(s \<mapsto> next_variable_address st),
                                next_variable_address := next_variable_address st + 1\<rparr>,
                            next_variable_address st))"
  using assms
  by (auto simp: a_instruction_value_def contains_def get_address_def add_variable_absent
           split: option.splits)

lemma a_instruction_value_decimal:
  assumes "s \<noteq> []" and "list_all isdecimal_char s"
  shows "a_instruction_value st s = Inr (st, foldl (\<lambda>acc c. 10 * acc + digit_value c) 0 s)"
proof -
  have "py_isdigit s"
    using assms by (auto simp: py_isdigit_def isdigit_char_def list_all_iff)
  with assms(2) show ?thesis by (simp add: a_instruction_value_def int_of_digits_def)
qed

lemma not_isdigit_examples: "\<not> py_isdigit ''-5''" "\<not> py_isdigit []"
  by (simp_all add: py_isdigit_def isdigit_char_def isdecimal_char_def)

text \<open>
  C10 at the reference \<^verbatim>\<open>U+00B2\<close> (superscript two): \<^verbatim>\<open>isdigit\<close> holds although the
  character is no decimal digit, so the reference is taken for a number, \<^verbatim>\<open>int\<close> raises
  \<^verbatim>\<open>ValueError\<close>, and the run ends with that exception instead of allocating a variable.
\<close>

theorem superscript_digit_reference_raises:
  "py_isdigit [CHR 0xB2]
   \<and> \<not> list_all isdecimal_char [CHR 0xB2]
   \<and> a_instruction_value SymbolTable_init [CHR 0xB2] = Inl ValueError
   \<and> assemble [[CHR ''@'', CHR 0xB2, CHR ''\<newline>'']] = Inl ValueError"
  unfolding assemble_def first_pass_lines_eq second_pass_lines_eq
  by (simp add: eval_defs)

end
